theory Spec2Isabelle
  imports Main "HOL-Library.AList"
begin

section \<open>Python strings\<close>

text \<open>
  A Python \<open>str\<close> is modelled as a \<open>string\<close> (a list of \<open>char\<close>); a \<open>char\<close> stands for
  a code point below 256. The separators and line boundaries the shell emulator looks at
  are all in that range.
\<close>

definition backslash :: char where
  "backslash = CHR 0x5C"

definition slash :: char where
  "slash = CHR 0x2F"

definition newline :: char where
  "newline = CHR 0x0A"

definition carriage_return :: char where
  "carriage_return = CHR 0x0D"

text \<open>\<open>str.isspace\<close> on one character: the characters \<open>str.split()\<close> and \<open>str.strip()\<close> drop.\<close>

definition is_space :: "char \<Rightarrow> bool" where
  "is_space c = (c \<in> set [CHR 0x09, CHR 0x0A, CHR 0x0B, CHR 0x0C, CHR 0x0D,
                             CHR 0x1C, CHR 0x1D, CHR 0x1E, CHR 0x1F, CHR 0x20,
                             CHR 0x85, CHR 0xA0])"

text \<open>The line boundaries of \<open>str.splitlines\<close>.\<close>

definition is_linebreak :: "char \<Rightarrow> bool" where
  "is_linebreak c = (c \<in> set [CHR 0x0A, CHR 0x0B, CHR 0x0C, CHR 0x0D,
                                 CHR 0x1C, CHR 0x1D, CHR 0x1E, CHR 0x85])"

text \<open>A string without a line boundary: what a line of \<open>splitlines\<close> is.\<close>

definition no_linebreak :: "string \<Rightarrow> bool" where
  "no_linebreak l = list_all (\<lambda>ch. \<not> is_linebreak ch) l"

text \<open>\<open>s.strip(chars)\<close>, \<open>s.lstrip(chars)\<close>: drop the characters of \<open>chars\<close> at the ends.\<close>

definition lstrip_chars :: "(char \<Rightarrow> bool) \<Rightarrow> string \<Rightarrow> string" where
  "lstrip_chars P s = dropWhile P s"

definition strip_chars :: "(char \<Rightarrow> bool) \<Rightarrow> string \<Rightarrow> string" where
  "strip_chars P s = rev (dropWhile P (rev (dropWhile P s)))"

text \<open>\<open>s.split(sep)\<close> for a separator of one character: never empty, keeps empty fields.\<close>

fun split_sep :: "char \<Rightarrow> string \<Rightarrow> string list" where
  "split_sep sep [] = [[]]"
| "split_sep sep (c # cs) =
     (if c = sep then [] # split_sep sep cs
      else (case split_sep sep cs of
              [] \<Rightarrow> [[c]]
            | w # ws \<Rightarrow> (c # w) # ws))"

text \<open>
  \<open>s.split()\<close> with no separator: the maximal runs of non-whitespace characters.
  The first argument holds the characters of the run being read, last first.
\<close>

fun split_ws :: "string \<Rightarrow> string \<Rightarrow> string list" where
  "split_ws cur [] = (if cur = [] then [] else [rev cur])"
| "split_ws cur (c # cs) =
     (if is_space c then (if cur = [] then split_ws [] cs else rev cur # split_ws [] cs)
      else split_ws (c # cur) cs)"

definition py_split :: "string \<Rightarrow> string list" where
  "py_split s = split_ws [] s"

text \<open>
  \<open>s.splitlines()\<close>: a line ends at a line boundary, \<open>\r\n\<close> counts as one boundary,
  and a final boundary does not open a new, empty line.
\<close>

fun split_lines :: "string \<Rightarrow> string \<Rightarrow> string list" where
  "split_lines cur [] = (if cur = [] then [] else [rev cur])"
| "split_lines cur (c # cs) =
     (if is_linebreak c then
        (if c = carriage_return then
           (case cs of
              [] \<Rightarrow> [rev cur]
            | d # ds \<Rightarrow> if d = newline then rev cur # split_lines [] ds
                       else rev cur # split_lines [] (d # ds))
         else rev cur # split_lines [] cs)
      else split_lines (c # cur) cs)"

definition splitlines :: "string \<Rightarrow> string list" where
  "splitlines s = split_lines [] s"

text \<open>\<open>sep.join(xs)\<close>.\<close>

fun py_join :: "string \<Rightarrow> string list \<Rightarrow> string" where
  "py_join sep [] = []"
| "py_join sep [x] = x"
| "py_join sep (x # y # ys) = x @ sep @ py_join sep (y # ys)"

section \<open>The in-memory file system\<close>

text \<open>
  \<open>self.fs\<close> is a Python dict whose values are strings or dicts. A node of the tree is a
  dict: a file is \<open>{"type": "file", "content": ..., "owner": "root"}\<close>, a directory
  made from an archive entry is \<open>{"type": "dir", "owner": "root"}\<close>, a parent made by
  \<open>setdefault\<close> is \<open>{}\<close>, and the children of a node are further keys of the same dict.
  A dict is an association list in insertion order; \<open>AList.update\<close> is the assignment
  \<open>d[k] = v\<close> (in place for a key that is there, at the end for a new one).
\<close>

datatype pyval = Str string | Dict "(string \<times> pyval) list"

type_synonym pydict = "(string \<times> pyval) list"

datatype pyexc =
  ValueError | AttributeError | TypeError | KeyError | UnicodeDecodeError | SystemExit

subsection \<open>\<open>traverse_path\<close>\<close>

text \<open>The loop of \<open>traverse_path\<close> over the parts of the path, from the node reached so far.\<close>

fun traverse_parts :: "pydict \<Rightarrow> string list \<Rightarrow> pydict option" where
  "traverse_parts node [] = Some node"
| "traverse_parts node (part # parts) =
     (if part = [] then traverse_parts node parts
      else (case map_of node part of
              Some (Dict d) \<Rightarrow> traverse_parts d parts
            | _ \<Rightarrow> None))"

definition path_parts :: "string \<Rightarrow> string list" where
  "path_parts path = split_sep backslash (strip_chars (\<lambda>c. c = backslash) path)"

definition traverse_path :: "pydict \<Rightarrow> string \<Rightarrow> pydict option" where
  "traverse_path tree path = traverse_parts tree (path_parts path)"

subsection \<open>Assignment to the node a path leads to\<close>

text \<open>
  \<open>chown\<close> and \<open>uniq\<close> assign to a key of the dict that \<open>traverse_path\<close> returned. The
  loader builds every dict afresh and stores it under one key, so the dicts form a tree
  and the assignment through the reference is the tree rebuilt along the same parts.
\<close>

fun assign_parts :: "pydict \<Rightarrow> string list \<Rightarrow> string \<Rightarrow> pyval \<Rightarrow> pydict" where
  "assign_parts node [] k v = AList.update k v node"
| "assign_parts node (part # parts) k v =
     (if part = [] then assign_parts node parts k v
      else (case map_of node part of
              Some (Dict d) \<Rightarrow> AList.update part (Dict (assign_parts d parts k v)) node
            | _ \<Rightarrow> node))"

definition assign_path :: "pydict \<Rightarrow> string \<Rightarrow> string \<Rightarrow> pyval \<Rightarrow> pydict" where
  "assign_path tree path k v = assign_parts tree (path_parts path) k v"

subsection \<open>\<open>load_tar\<close>\<close>

text \<open>
  A member of the archive as \<open>tarfile\<close> hands it over: its name, and whether
  \<open>isfile()\<close> or \<open>isdir()\<close> holds. For a file, the content is the decoded text, or
  \<open>None\<close> when \<open>decode()\<close> raises.
\<close>

datatype member_kind = IsFile "string option" | IsDir | IsOther

type_synonym tar_member = "string \<times> member_kind"

definition file_node :: "string \<Rightarrow> pyval" where
  "file_node content =
     Dict [(''type'', Str ''file''), (''content'', Str content), (''owner'', Str ''root'')]"

definition dir_node :: pyval where
  "dir_node = Dict [(''type'', Str ''dir''), (''owner'', Str ''root'')]"

text \<open>
  One member: \<open>setdefault\<close> along all parts but the last, then the assignment of the new
  node under the last part. \<open>setdefault\<close> returns what is stored under the part, which
  can be a string (\<open>"root"\<close> under \<open>"owner"\<close>); the next step on a string raises.
\<close>

fun store_member :: "pyval \<Rightarrow> string list \<Rightarrow> string \<Rightarrow> member_kind \<Rightarrow> pyexc + pyval" where
  "store_member node [] leaf kind =
     (case kind of
        IsFile None \<Rightarrow> Inl UnicodeDecodeError
      | IsFile (Some content) \<Rightarrow>
          (case node of
             Dict d \<Rightarrow> Inr (Dict (AList.update leaf (file_node content) d))
           | Str s \<Rightarrow> Inl TypeError)
      | IsDir \<Rightarrow>
          (case node of
             Dict d \<Rightarrow> Inr (Dict (AList.update leaf dir_node d))
           | Str s \<Rightarrow> Inl TypeError)
      | IsOther \<Rightarrow> Inr node)"
| "store_member (Str s) (part # parts) leaf kind = Inl AttributeError"
| "store_member (Dict d) (part # parts) leaf kind =
     (case store_member (case map_of d part of None \<Rightarrow> Dict [] | Some child \<Rightarrow> child)
             parts leaf kind of
        Inl e \<Rightarrow> Inl e
      | Inr child' \<Rightarrow> Inr (Dict (AList.update part child' d)))"

definition load_member :: "pyval \<Rightarrow> tar_member \<Rightarrow> pyexc + pyval" where
  "load_member root m =
     (let parts = split_sep slash (fst m)
      in store_member root (butlast parts) (last parts) (snd m))"

fun load_members :: "pyval \<Rightarrow> tar_member list \<Rightarrow> pyexc + pyval" where
  "load_members root [] = Inr root"
| "load_members root (m # ms) =
     (case load_member root m of
        Inl e \<Rightarrow> Inl e
      | Inr root' \<Rightarrow> load_members root' ms)"

text \<open>
  \<open>load_tar\<close>: \<open>None\<close> stands for a path that \<open>tarfile.is_tarfile\<close> rejects. The tree
  starts as the empty dict of \<open>__init__\<close>.
\<close>

definition load_tar :: "tar_member list option \<Rightarrow> pyexc + pyval" where
  "load_tar archive =
     (case archive of
        None \<Rightarrow> Inl ValueError
      | Some members \<Rightarrow> load_members (Dict []) members)"

section \<open>\<open>os.path\<close>\<close>

text \<open>
  \<open>cd\<close> and \<open>chown\<close> call \<open>os.path.join\<close> and \<open>os.path.normpath\<close>, which are
  \<open>posixpath\<close>'s or \<open>ntpath\<close>'s functions depending on the platform the interpreter runs
  on. Both are modelled, after the Python text of CPython 3.11's \<open>posixpath.py\<close> and
  \<open>ntpath.py\<close>, and every command takes the platform as a parameter.
\<close>

datatype platform = Posix | Nt

subsection \<open>\<open>posixpath\<close>\<close>

definition posix_join :: "string \<Rightarrow> string \<Rightarrow> string" where
  "posix_join a b =
     (if take 1 b = [slash] then b
      else if a = [] \<or> last a = slash then a @ b
      else a @ [slash] @ b)"

fun posix_comps :: "nat \<Rightarrow> string list \<Rightarrow> string list \<Rightarrow> string list" where
  "posix_comps initial_slashes new_comps [] = new_comps"
| "posix_comps initial_slashes new_comps (seg # comps) =
     (if seg = [] \<or> seg = ''.'' then posix_comps initial_slashes new_comps comps
      else if seg \<noteq> ''..'' \<or> (initial_slashes = 0 \<and> new_comps = [])
                \<or> (new_comps \<noteq> [] \<and> last new_comps = ''..'')
        then posix_comps initial_slashes (new_comps @ [seg]) comps
      else if new_comps \<noteq> [] then posix_comps initial_slashes (butlast new_comps) comps
      else posix_comps initial_slashes new_comps comps)"

definition posix_normpath :: "string \<Rightarrow> string" where
  "posix_normpath path =
     (if path = [] then ''.''
      else
        let initial_slashes =
              (if take 1 path = [slash] then
                 (if take 2 path = [slash, slash] \<and> take 3 path \<noteq> [slash, slash, slash]
                  then 2 else 1)
               else 0);
            comps = posix_comps initial_slashes [] (split_sep slash path);
            joined = replicate initial_slashes slash @ py_join [slash] comps
        in if joined = [] then ''.'' else joined)"

subsection \<open>\<open>ntpath\<close>\<close>

definition is_sep :: "char \<Rightarrow> bool" where
  "is_sep c = (c = backslash \<or> c = slash)"

text \<open>\<open>s.find(c, start)\<close>: the first position from \<open>start\<close> on that holds \<open>c\<close>.\<close>

fun find_from :: "char \<Rightarrow> nat \<Rightarrow> string \<Rightarrow> nat option" where
  "find_from c start [] = None"
| "find_from c start (x # xs) =
     (if start = 0 \<and> x = c then Some 0
      else map_option Suc (find_from c (start - 1) xs))"

text \<open>
  \<open>str.upper\<close> and \<open>str.lower\<close> on one character. \<open>upper\<close> is only compared with the
  ASCII prefix \<open>\\?\UNC\\<close>, whose letters are the upper case of ASCII letters alone.
\<close>

definition ascii_upper :: "char \<Rightarrow> char" where
  "ascii_upper c =
     (let n = (of_char c :: nat) in if 97 \<le> n \<and> n \<le> 122 then char_of (n - 32) else c)"

definition py_lower :: "char \<Rightarrow> char" where
  "py_lower c =
     (let n = (of_char c :: nat)
      in if (65 \<le> n \<and> n \<le> 90) \<or> (192 \<le> n \<and> n \<le> 222 \<and> n \<noteq> 215)
         then char_of (n + 32) else c)"

definition unc_prefix :: string where
  "unc_prefix = [backslash, backslash, CHR ''?'', backslash,
                 CHR ''U'', CHR ''N'', CHR ''C'', backslash]"

definition splitdrive :: "string \<Rightarrow> string \<times> string" where
  "splitdrive p =
     (if 2 \<le> length p then
        (let normp = map (\<lambda>c. if c = slash then backslash else c) p
         in if take 2 normp = [backslash, backslash] then
              (let start = (if map ascii_upper (take 8 normp) = unc_prefix then 8 else 2)
               in case find_from backslash start normp of
                    None \<Rightarrow> (p, [])
                  | Some index \<Rightarrow>
                      (case find_from backslash (index + 1) normp of
                         None \<Rightarrow> (p, [])
                       | Some index2 \<Rightarrow> (take index2 p, drop index2 p)))
            else if take 1 (drop 1 normp) = '':'' then (take 2 p, drop 2 p)
            else ([], p))
      else ([], p))"

definition nt_join :: "string \<Rightarrow> string \<Rightarrow> string" where
  "nt_join path p =
     (let (result_drive, result_path) = splitdrive path;
          (p_drive, p_path) = splitdrive p;
          (result_drive, result_path) =
            (if p_path \<noteq> [] \<and> is_sep (hd p_path) then
               (if p_drive \<noteq> [] \<or> result_drive = [] then p_drive else result_drive, p_path)
             else if p_drive \<noteq> [] \<and> p_drive \<noteq> result_drive
                     \<and> map py_lower p_drive \<noteq> map py_lower result_drive then
               (p_drive, p_path)
             else
               (if p_drive \<noteq> [] \<and> p_drive \<noteq> result_drive then p_drive else result_drive,
                (if result_path \<noteq> [] \<and> \<not> is_sep (last result_path)
                 then result_path @ [backslash] else result_path) @ p_path))
      in if result_path \<noteq> [] \<and> \<not> is_sep (hd result_path)
            \<and> result_drive \<noteq> [] \<and> last result_drive \<noteq> CHR '':''
         then result_drive @ [backslash] @ result_path
         else result_drive @ result_path)"

text \<open>
  The \<open>while\<close> loop of \<open>ntpath.normpath\<close>: \<open>kept\<close> is \<open>comps[:i]\<close>, the third argument
  is \<open>comps[i:]\<close>.
\<close>

fun nt_comps :: "string \<Rightarrow> string list \<Rightarrow> string list \<Rightarrow> string list" where
  "nt_comps prefix kept [] = kept"
| "nt_comps prefix kept (seg # comps) =
     (if seg = [] \<or> seg = ''.'' then nt_comps prefix kept comps
      else if seg = ''..'' then
        (if kept \<noteq> [] \<and> last kept \<noteq> ''..'' then nt_comps prefix (butlast kept) comps
         else if kept = [] \<and> prefix \<noteq> [] \<and> last prefix = backslash
           then nt_comps prefix kept comps
         else nt_comps prefix (kept @ [seg]) comps)
      else nt_comps prefix (kept @ [seg]) comps)"

definition nt_normpath :: "string \<Rightarrow> string" where
  "nt_normpath path0 =
     (let path1 = map (\<lambda>c. if c = slash then backslash else c) path0;
          (drive, path2) = splitdrive path1;
          prefix = (if take 1 path2 = [backslash] then drive @ [backslash] else drive);
          path3 = lstrip_chars (\<lambda>c. c = backslash) path2;
          comps = nt_comps prefix [] (split_sep backslash path3);
          comps' = (if prefix = [] \<and> comps = [] then [''.''] else comps)
      in prefix @ py_join [backslash] comps')"

subsection \<open>The platform's \<open>os.path\<close>\<close>

fun os_path_join :: "platform \<Rightarrow> string \<Rightarrow> string \<Rightarrow> string" where
  "os_path_join Posix a b = posix_join a b"
| "os_path_join Nt a b = nt_join a b"

fun os_path_normpath :: "platform \<Rightarrow> string \<Rightarrow> string" where
  "os_path_normpath Posix path = posix_normpath path"
| "os_path_normpath Nt path = nt_normpath path"

section \<open>The shell emulator\<close>

text \<open>
  The fields of \<open>ShellEmulator\<close>, and what the session does to the world outside:
  \<open>stdout\<close> collects the texts written by \<open>print\<close> and by the prompt of \<open>input\<close>, one
  element for each call; \<open>log_file\<close> is the content of the file at \<open>log_path\<close> once
  \<open>save_log\<close> has written it; \<open>write_error\<close> is the text of the exception that
  \<open>tree.write\<close> raises, if it raises one.
\<close>

record log_entry =
  timestamp :: string
  command :: string
  status :: string
  message :: string

record shell =
  tar_path :: string
  log_path :: string
  fs :: pydict
  current_path :: string
  log_actions :: "log_entry list"
  current_user :: string
  stdout :: "string list"
  log_file :: "log_entry list option"
  write_error :: "string option"

text \<open>
  A call either returns, or raises: \<open>exit()\<close> raises \<open>SystemExit\<close>, which nothing in the
  program catches. The state is the one at the time of the return or of the raise.
\<close>

datatype outcome = Returned shell | Raised pyexc shell

definition print :: "string \<Rightarrow> shell \<Rightarrow> shell" where
  "print text st = st\<lparr>stdout := stdout st @ [text]\<rparr>"

text \<open>\<open>log\<close>: \<open>now\<close> is the value of \<open>datetime.now().isoformat()\<close> at the call.\<close>

definition log :: "string \<Rightarrow> string \<Rightarrow> string \<Rightarrow> string \<Rightarrow> shell \<Rightarrow> shell" where
  "log now cmd stat msg st =
     st\<lparr>log_actions := log_actions st @
          [\<lparr>timestamp = now, command = cmd, status = stat, message = msg\<rparr>]\<rparr>"

definition request_login :: "string \<Rightarrow> string \<times> string list" where
  "request_login typed =
     (let user = strip_chars is_space typed
      in if user = []
         then (''guest'', [''Enter your username: '',
                           ''Username cannot be empty. Using 'guest' as default.''])
         else (user, [''Enter your username: '']))"

text \<open>\<open>__init__\<close>: the login, then \<open>load_tar\<close>; a raise of \<open>load_tar\<close> leaves no object.\<close>

definition init ::
  "string \<Rightarrow> string \<Rightarrow> string \<Rightarrow> tar_member list option \<Rightarrow> string option \<Rightarrow> pyexc + shell" where
  "init tarp logp typed archive werr =
     (let (user, printed) = request_login typed
      in case load_tar archive of
           Inl e \<Rightarrow> Inl e
         | Inr (Str s) \<Rightarrow> Inl TypeError
         | Inr (Dict d) \<Rightarrow>
             Inr \<lparr>tar_path = tarp, log_path = logp, fs = d, current_path = ''/'',
                  log_actions = [], current_user = user, stdout = printed,
                  log_file = None, write_error = werr\<rparr>)"

definition save_log :: "shell \<Rightarrow> shell" where
  "save_log st =
     (if log_actions st = [] then print ''No actions to log.'' st
      else (case write_error st of
              None \<Rightarrow> print (''Log saved to '' @ log_path st)
                        (st\<lparr>log_file := Some (log_actions st)\<rparr>)
            | Some e \<Rightarrow> print (''Error saving log: '' @ e) st))"

definition ls :: "string \<Rightarrow> shell \<Rightarrow> outcome" where
  "ls now st =
     (case traverse_path (fs st) (current_path st) of
        None \<Rightarrow> Returned (log now ''ls'' ''error'' ''Not a directory''
                            (print ''Not a directory'' st))
      | Some node \<Rightarrow> Returned (log now ''ls'' ''success'' []
                                 (st\<lparr>stdout := stdout st @ map fst node\<rparr>)))"

definition cd :: "platform \<Rightarrow> string \<Rightarrow> string list \<Rightarrow> shell \<Rightarrow> outcome" where
  "cd os now args st =
     (if length args \<noteq> 1 then
        Returned (log now ''cd'' ''error'' ''Invalid arguments'' (print ''Usage: cd <path>'' st))
      else
        let path = hd args;
            new_path = os_path_normpath os (os_path_join os (current_path st) path)
        in if traverse_path (fs st) new_path = None then
             Returned (log now ''cd'' ''error'' ''No such directory''
                         (print (''No such directory: '' @ path) st))
           else
             Returned (log now (''cd '' @ path) ''success'' []
                         (st\<lparr>current_path := new_path\<rparr>)))"

definition chown :: "platform \<Rightarrow> string \<Rightarrow> string list \<Rightarrow> shell \<Rightarrow> outcome" where
  "chown os now args st =
     (if length args \<noteq> 2 then
        Returned (log now ''chown'' ''error'' ''Invalid arguments''
                    (print ''Usage: chown <owner> <path>'' st))
      else
        let owner = hd args;
            path = hd (tl args);
            target = os_path_join os (current_path st) path
        in case traverse_path (fs st) target of
             None \<Rightarrow>
               Returned (log now ''chown'' ''error'' ''No such file or directory''
                           (print (''No such file or directory: '' @ path) st))
           | Some node \<Rightarrow>
               if map_of node ''owner'' = None then
                 Returned (log now ''chown'' ''error'' ''Cannot change owner''
                             (print (''Cannot change owner of '' @ path) st))
               else
                 Returned (log now (''chown '' @ owner @ '' '' @ path) ''success'' []
                             (print (''Owner of '' @ path @ '' changed to '' @ owner)
                                (st\<lparr>fs := assign_path (fs st) target ''owner'' (Str owner)\<rparr>))))"

definition who :: "string \<Rightarrow> shell \<Rightarrow> outcome" where
  "who now st =
     Returned (log now ''who'' ''success'' [] (print (''User: '' @ current_user st) st))"

text \<open>
  \<open>lines.index(x)\<close> for an \<open>x\<close> of \<open>lines\<close>, and
  \<open>sorted(set(lines), key=lines.index)\<close>: \<open>remdups\<close> lists the elements of the set once
  each; the order in which the set hands them over does not matter, since no two of them
  have the same key (\<open>unique_lines_any_order\<close> below).
\<close>

fun index_of :: "'a list \<Rightarrow> 'a \<Rightarrow> nat" where
  "index_of [] x = 0"
| "index_of (y # ys) x = (if y = x then 0 else Suc (index_of ys x))"

definition unique_lines :: "string list \<Rightarrow> string list" where
  "unique_lines lines = sort_key (index_of lines) (remdups lines)"

text \<open>The new content that \<open>uniq\<close> computes from the old one.\<close>

definition uniq_content :: "string \<Rightarrow> string" where
  "uniq_content content = py_join [newline] (unique_lines (splitlines content))"

definition uniq :: "string \<Rightarrow> string list \<Rightarrow> shell \<Rightarrow> outcome" where
  "uniq now args st =
     (if length args \<noteq> 1 then
        Returned (log now ''uniq'' ''error'' ''Invalid arguments''
                    (print ''Usage: uniq <file>'' st))
      else
        let path = hd args
        in case traverse_path (fs st) path of
             None \<Rightarrow>
               Returned (log now ''uniq'' ''error'' ''No such file''
                           (print (''No such file: '' @ path) st))
           | Some node \<Rightarrow>
               if map_of node ''type'' \<noteq> Some (Str ''file'') then
                 Returned (log now ''uniq'' ''error'' ''No such file''
                             (print (''No such file: '' @ path) st))
               else
                 (case map_of node ''content'' of
                    None \<Rightarrow> Raised KeyError st
                  | Some (Dict d) \<Rightarrow> Raised AttributeError st
                  | Some (Str content) \<Rightarrow>
                      Returned (log now (''uniq '' @ path) ''success'' []
                                  (print (uniq_content content)
                                     (st\<lparr>fs := assign_path (fs st) path ''content''
                                                  (Str (uniq_content content))\<rparr>)))))"

definition exit_shell :: "shell \<Rightarrow> outcome" where
  "exit_shell st = Raised SystemExit (print ''Session saved. Exiting...'' (save_log st))"

definition execute_command :: "platform \<Rightarrow> string \<Rightarrow> string \<Rightarrow> shell \<Rightarrow> outcome" where
  "execute_command os now line st =
     (let parts = py_split (strip_chars is_space line)
      in if parts = [] then Returned st
         else
           let cmd = hd parts; args = tl parts
           in if cmd = ''ls'' then ls now st
              else if cmd = ''cd'' then cd os now args st
              else if cmd = ''chown'' then chown os now args st
              else if cmd = ''who'' then who now st
              else if cmd = ''uniq'' then uniq now args st
              else if cmd = ''exit'' then exit_shell st
              else Returned (log now line ''error'' ''Command not found''
                               (print (''Command not found: '' @ cmd) st)))"

text \<open>
  The loop of \<open>run\<close> over the lines typed so far, each with the time of its log entry:
  it stops at the first raise, and returns while it waits for the next line.
\<close>

fun run_lines :: "platform \<Rightarrow> (string \<times> string) list \<Rightarrow> shell \<Rightarrow> outcome" where
  "run_lines os [] st = Returned st"
| "run_lines os ((now, line) # rest) st =
     (case execute_command os now line (print (current_path st @ ''> '') st) of
        Returned st' \<Rightarrow> run_lines os rest st'
      | Raised e st' \<Rightarrow> Raised e st')"

definition run :: "platform \<Rightarrow> (string \<times> string) list \<Rightarrow> shell \<Rightarrow> outcome" where
  "run os typed st =
     run_lines os typed (print ''Welcome to Shell Emulator. Type 'exit' to quit.'' st)"

section \<open>Reading outcomes, and the sessions of the examples\<close>

fun state_of :: "outcome \<Rightarrow> shell" where
  "state_of (Returned st) = st"
| "state_of (Raised e st) = st"

fun returned :: "outcome \<Rightarrow> bool" where
  "returned (Returned st) = True"
| "returned (Raised e st) = False"

text \<open>
  The session that \<open>__init__\<close> leaves for a loaded tree, with a given current path
  (\<open>__init__\<close> sets \<open>"/"\<close>), before any command.
\<close>

definition session :: "pydict \<Rightarrow> string \<Rightarrow> shell" where
  "session tree path =
     \<lparr>tar_path = ''fs.tar'', log_path = ''log.xml'', fs = tree, current_path = path,
      log_actions = [], current_user = ''user'', stdout = [],
      log_file = None, write_error = None\<rparr>"

text \<open>
  The archive of the spec's scenario: the directory \<open>a\<close> (\<open>tarfile\<close> gives the name of a
  directory member without its final slash) and the file \<open>a/f.txt\<close> with
  content \<open>x\nx\ny\n\<close>; and the tree \<open>load_tar\<close> builds from it.
\<close>

definition scenario_content :: string where
  "scenario_content = [CHR ''x'', newline, CHR ''x'', newline, CHR ''y'', newline]"

definition scenario_archive :: "tar_member list" where
  "scenario_archive = [(''a'', IsDir), (''a/f.txt'', IsFile (Some scenario_content))]"

definition scenario_tree :: pydict where
  "scenario_tree =
     [(''a'', Dict [(''type'', Str ''dir''), (''owner'', Str ''root''),
                    (''f.txt'', file_node scenario_content)])]"


definition orphan_tree :: pydict where
  "orphan_tree = [(''a'', Dict [(''f.txt'', file_node ''x'')])]"

text \<open>
  Two file contents: \<open>a\n\n\<close>, whose last line is empty, and \<open>x\ny\n\<close>, which has no
  duplicate line and ends with a newline.
\<close>

definition blank_tail_content :: string where
  "blank_tail_content = [CHR ''a'', newline, newline]"

definition tidy_content :: string where
  "tidy_content = [CHR ''x'', newline, CHR ''y'', newline]"

text \<open>
  The tree of the one file \<open>f.txt\<close>; and an archive with the file \<open>f.txt\<close> and a file
  \<open>f.txt/x\<close> below it, with the tree \<open>load_tar\<close> builds from it.
\<close>

definition lone_file_tree :: pydict where
  "lone_file_tree = [(''f.txt'', file_node ''x'')]"

definition nested_archive :: "tar_member list" where
  "nested_archive = [(''f.txt'', IsFile (Some ''x'')), (''f.txt/x'', IsFile (Some ''y''))]"

definition nested_tree :: pydict where
  "nested_tree =
     [(''f.txt'', Dict [(''type'', Str ''file''), (''content'', Str ''x''),
                        (''owner'', Str ''root''), (''x'', file_node ''y'')])]"

text \<open>
  Five typed lines, each with the time of its log entry: two of them are blank.
\<close>

definition typed_lines :: "(string \<times> string) list" where
  "typed_lines = [(''t1'', ''who''), (''t2'', []), (''t3'', ''frobnicate now''),
                  (''t4'', ''   ''), (''t5'', ''ls'')]"

section \<open>Invariants of the tree\<close>


text \<open>Every node whose \<open>type\<close> is \<open>"file"\<close> has a string under \<open>content\<close>.\<close>

fun files_have_text :: "pyval \<Rightarrow> bool" where
  "files_have_text (Str s) = True"
| "files_have_text (Dict d) =
     ((case map_of d ''content'' of
         Some (Str c) \<Rightarrow> True
       | _ \<Rightarrow> map_of d ''type'' \<noteq> Some (Str ''file''))
      \<and> (\<forall>v \<in> snd ` set d. files_have_text v))"

text \<open>The first word of a line, as \<open>execute_command\<close> reads it; \<open>None\<close> for a blank line.\<close>

definition verb_of :: "string \<Rightarrow> string option" where
  "verb_of line =
     (case py_split (strip_chars is_space line) of [] \<Rightarrow> None | cmd # args \<Rightarrow> Some cmd)"

text \<open>
  An outcome that is a return with one more log entry than the state before, the earlier
  entries kept, and the tree still with text in every file.
\<close>

definition appends_one :: "shell \<Rightarrow> outcome \<Rightarrow> bool" where
  "appends_one st out =
     (case out of
        Returned st' \<Rightarrow>
          length (log_actions st') = Suc (length (log_actions st)) \<and>
          butlast (log_actions st') = log_actions st \<and>
          files_have_text (Dict (fs st'))
      | Raised e st' \<Rightarrow> False)"

section \<open>Lines: \<open>splitlines\<close>, \<open>join\<close> and the lines \<open>uniq\<close> keeps\<close>

lemma no_linebreak_simps:
  "no_linebreak []"
  "no_linebreak (c # cs) = (\<not> is_linebreak c \<and> no_linebreak cs)"
  "no_linebreak (xs @ ys) = (no_linebreak xs \<and> no_linebreak ys)"
  "no_linebreak (rev xs) = no_linebreak xs"
  by (auto simp: no_linebreak_def list_all_iff)

lemma newline_linebreak: "is_linebreak newline" "newline \<noteq> carriage_return"
  by (simp_all add: is_linebreak_def newline_def carriage_return_def)

lemma split_lines_no_break:
  "l \<in> set (split_lines cur s) \<Longrightarrow> no_linebreak cur \<Longrightarrow> no_linebreak l"
proof (induction cur s rule: split_lines.induct)
  case (1 cur)
  then show ?case by (cases "cur = []") (auto simp: no_linebreak_simps)
next
  case (2 cur c cs)
  show ?case
  proof (cases "is_linebreak c")
    case False
    with "2.prems" have "l \<in> set (split_lines (c # cur) cs)" "no_linebreak (c # cur)"
      by (simp_all add: no_linebreak_simps)
    with False show ?thesis by (rule "2.IH"(4))
  next
    case br: True
    show ?thesis
    proof (cases "c = carriage_return")
      case False
      with br "2.prems" have "l = rev cur \<or> l \<in> set (split_lines [] cs)" by auto
      then show ?thesis
      proof
        assume "l = rev cur"
        with "2.prems" show ?thesis by (simp add: no_linebreak_simps)
      next
        assume "l \<in> set (split_lines [] cs)"
        with br False show ?thesis by (intro "2.IH"(3)) (simp_all add: no_linebreak_simps)
      qed
    next
      case cr: True
      show ?thesis
      proof (cases cs)
        case Nil
        with br cr "2.prems" show ?thesis by (simp add: no_linebreak_simps)
      next
        case (Cons d ds)
        show ?thesis
        proof (cases "d = newline")
          case True
          with br cr Cons "2.prems" have "l = rev cur \<or> l \<in> set (split_lines [] ds)" by auto
          then show ?thesis
          proof
            assume "l = rev cur"
            with "2.prems" show ?thesis by (simp add: no_linebreak_simps)
          next
            assume "l \<in> set (split_lines [] ds)"
            with br cr Cons True show ?thesis
              by (intro "2.IH"(1)) (simp_all add: no_linebreak_simps)
          qed
        next
          case False
          with br cr Cons "2.prems" have "l = rev cur \<or> l \<in> set (split_lines [] (d # ds))"
            by auto
          then show ?thesis
          proof
            assume "l = rev cur"
            with "2.prems" show ?thesis by (simp add: no_linebreak_simps)
          next
            assume "l \<in> set (split_lines [] (d # ds))"
            with br cr Cons False show ?thesis
              by (intro "2.IH"(2)) (simp_all add: no_linebreak_simps)
          qed
        qed
      qed
    qed
  qed
qed

lemma split_lines_plain:
  "no_linebreak l \<Longrightarrow> split_lines cur (l @ s) = split_lines (rev l @ cur) s"
  by (induction l arbitrary: cur) (simp_all add: no_linebreak_simps)

lemma split_lines_newline: "split_lines cur (newline # s) = rev cur # split_lines [] s"
  by (simp add: newline_linebreak)

lemma split_lines_join:
  "\<forall>l \<in> set lns. no_linebreak l \<Longrightarrow> lns \<noteq> [] \<Longrightarrow> last lns \<noteq> [] \<Longrightarrow>
   split_lines [] (py_join [newline] lns) = lns"
proof (induction "[newline]" lns rule: py_join.induct)
  case 1
  then show ?case by simp
next
  case (2 x)
  then have "split_lines [] (x @ []) = split_lines (rev x @ []) []"
    by (intro split_lines_plain) simp
  with 2 show ?case by simp
next
  case (3 x y ys)
  have "split_lines [] (x @ newline # py_join [newline] (y # ys))
        = split_lines (rev x @ []) (newline # py_join [newline] (y # ys))"
    using 3 by (intro split_lines_plain) simp
  also have "\<dots> = x # split_lines [] (py_join [newline] (y # ys))"
    by (simp only: split_lines_newline rev_rev_ident append_Nil2)
  finally show ?case using 3 by simp
qed

lemma index_of_distinct: "distinct xs \<Longrightarrow> map (index_of xs) xs = [0..<length xs]"
proof (induction xs)
  case Nil
  then show ?case by simp
next
  case (Cons x xs)
  have "map (index_of (x # xs)) xs = map (\<lambda>y. Suc (index_of xs y)) xs"
    using Cons.prems by (intro map_cong) auto
  then have a: "map (index_of (x # xs)) xs = map Suc (map (index_of xs) xs)" by simp
  have b: "map (index_of xs) xs = [0..<length xs]"
    using Cons by simp
  have c: "map Suc [0..<length xs] = [Suc 0..<Suc (length xs)]"
    by (rule map_Suc_upt)
  have d: "[0..<Suc (length xs)] = 0 # [Suc 0..<Suc (length xs)]"
    by (rule upt_conv_Cons) simp
  have e: "index_of (x # xs) x = 0" by simp
  show ?case unfolding list.map(2) e a b c length_Cons d by (rule refl)
qed

lemma unique_lines_distinct: "distinct lns \<Longrightarrow> unique_lines lns = lns"
proof -
  assume d: "distinct lns"
  then have "sorted (map (index_of lns) lns)" by (simp add: index_of_distinct)
  then have "sort_key (index_of lns) lns = lns" by (rule sort_key_id_if_sorted)
  with d show ?thesis by (simp add: unique_lines_def distinct_remdups_id)
qed

lemma set_unique_lines: "set (unique_lines lns) = set lns"
  by (simp add: unique_lines_def)

lemma distinct_unique_lines: "distinct (unique_lines lns)"
  by (simp add: unique_lines_def)

lemma index_of_nth: "x \<in> set xs \<Longrightarrow> xs ! index_of xs x = x"
  by (induction xs) auto

lemma index_of_inj: "inj_on (index_of xs) (set xs)"
proof (rule inj_onI)
  fix x y
  assume x: "x \<in> set xs" and y: "y \<in> set xs" and eq: "index_of xs x = index_of xs y"
  from x have "x = xs ! index_of xs x" by (simp only: index_of_nth)
  also from eq have "\<dots> = xs ! index_of xs y" by (rule arg_cong)
  also from y have "\<dots> = y" by (simp only: index_of_nth)
  finally show "x = y" .
qed

lemma unique_lines_any_order:
  assumes "distinct xs" and "set xs = set lns"
  shows "sort_key (index_of lns) xs = unique_lines lns"
proof -
  let ?f = "index_of lns"
  have inj: "inj_on ?f (set lns)" by (rule index_of_inj)
  have "distinct (map ?f (sort_key ?f xs))"
    using assms inj by (simp add: distinct_map)
  moreover have "distinct (map ?f (unique_lines lns))"
    using inj by (simp add: distinct_map unique_lines_def)
  moreover have "sorted (map ?f (sort_key ?f xs))" "sorted (map ?f (unique_lines lns))"
    by (simp_all add: unique_lines_def)
  moreover have "set (sort_key ?f xs) = set (unique_lines lns)"
    using assms by (simp add: unique_lines_def)
  moreover have "inj_on ?f (set (sort_key ?f xs) \<union> set (unique_lines lns))"
    using inj assms by (simp add: unique_lines_def)
  ultimately show ?thesis by (intro map_sorted_distinct_set_unique [of ?f])
qed

lemma uniq_content_idem:
  assumes "\<not> (2 \<le> length (unique_lines (splitlines content))
              \<and> last (unique_lines (splitlines content)) = [])"
  shows "uniq_content (uniq_content content) = uniq_content content"
proof -
  let ?u = "unique_lines (splitlines content)"
  have plain: "\<forall>l \<in> set ?u. no_linebreak l"
  proof
    fix l assume "l \<in> set ?u"
    then have "l \<in> set (split_lines [] content)"
      by (simp add: set_unique_lines splitlines_def)
    then show "no_linebreak l"
      by (rule split_lines_no_break) (simp add: no_linebreak_simps)
  qed
  have d: "distinct ?u" by (rule distinct_unique_lines)
  show ?thesis
  proof (cases "?u = [] \<or> ?u = [[]]")
    case True
    then have "py_join [newline] ?u = []" by auto
    then have "uniq_content content = []" by (simp only: uniq_content_def)
    moreover have "uniq_content [] = []"
      by (simp add: uniq_content_def splitlines_def unique_lines_def)
    ultimately show ?thesis by simp
  next
    case False
    then have ne: "?u \<noteq> []" by simp
    have "last ?u \<noteq> []"
    proof
      assume l: "last ?u = []"
      with assms have "length ?u < 2" by simp
      with ne have "?u = [last ?u]" by (cases ?u) auto
      with l False show False by simp
    qed
    with plain ne have "splitlines (py_join [newline] ?u) = ?u"
      unfolding splitlines_def by (intro split_lines_join)
    then show ?thesis using d by (simp add: uniq_content_def unique_lines_distinct)
  qed
qed


lemma split_lines_size:
  "s \<noteq> [] \<Longrightarrow> is_linebreak (last s) \<Longrightarrow>
   (\<Sum>l\<leftarrow>split_lines cur s. Suc (length l)) \<le> length cur + length s"
proof (induction cur s rule: split_lines.induct)
  case (1 cur)
  then show ?case by simp
next
  case (2 cur c cs)
  show ?case
  proof (cases "is_linebreak c")
    case False
    with "2.prems" have cs: "cs \<noteq> []" "is_linebreak (last cs)"
      by (auto split: if_splits)
    from "2.IH"(4) [OF False cs] False show ?thesis by simp
  next
    case br: True
    show ?thesis
    proof (cases "c = carriage_return")
      case False
      show ?thesis
      proof (cases "cs = []")
        case True
        with br False show ?thesis by simp
      next
        case ne: False
        with "2.prems" have "is_linebreak (last cs)" by simp
        from "2.IH"(3) [OF br False ne this] br False show ?thesis by simp
      qed
    next
      case cr: True
      show ?thesis
      proof (cases cs)
        case Nil
        with br cr show ?thesis by simp
      next
        case (Cons d ds)
        show ?thesis
        proof (cases "d = newline")
          case nl: True
          show ?thesis
          proof (cases "ds = []")
            case True
            with br cr Cons nl show ?thesis by simp
          next
            case ne: False
            with "2.prems" Cons have "is_linebreak (last ds)" by simp
            from "2.IH"(1) [OF br cr Cons nl ne this] br cr Cons nl show ?thesis by simp
          qed
        next
          case nnl: False
          from "2.prems" Cons have l: "is_linebreak (last (d # ds))" by simp
          have "d # ds \<noteq> []" by simp
          from "2.IH"(2) [OF br cr Cons nnl this l] br cr Cons nnl show ?thesis by simp
        qed
      qed
    qed
  qed
qed

lemma length_py_join:
  "length (py_join [c] lns) = (\<Sum>l\<leftarrow>lns. Suc (length l)) - 1"
  by (induction "[c]" lns rule: py_join.induct) simp_all

lemma split_lines_not_Nil: "s \<noteq> [] \<Longrightarrow> split_lines cur s \<noteq> []"
proof (induction cur s rule: split_lines.induct)
  case (1 cur)
  then show ?case by simp
next
  case (2 cur c cs)
  show ?case
  proof (cases "is_linebreak c")
    case True
    then show ?thesis by (simp split: list.splits)
  next
    case False
    show ?thesis
    proof (cases "cs = []")
      case True
      with False show ?thesis by simp
    next
      case ne: False
      from "2.IH"(4) [OF False ne] False show ?thesis by simp
    qed
  qed
qed

lemma py_join_shorter:
  assumes "s \<noteq> []" and "is_linebreak (last s)"
  shows "length (py_join [c] (splitlines s)) < length s"
proof -
  have "splitlines s \<noteq> []"
    using assms(1) by (simp add: splitlines_def split_lines_not_Nil)
  then have "0 < (\<Sum>l\<leftarrow>splitlines s. Suc (length l))"
    by (cases "splitlines s") simp_all
  moreover have "(\<Sum>l\<leftarrow>splitlines s. Suc (length l)) \<le> length s"
    using split_lines_size [OF assms, of "[]"] by (simp add: splitlines_def)
  ultimately show ?thesis by (simp add: length_py_join)
qed

lemma split_lines_only_newlines:
  "s \<noteq> [] \<Longrightarrow> last s = newline \<Longrightarrow> \<forall>ch \<in> set s. is_linebreak ch \<longrightarrow> ch = newline \<Longrightarrow>
   py_join [newline] (split_lines cur s) = rev cur @ butlast s"
proof (induction s arbitrary: cur)
  case Nil
  then show ?case by simp
next
  case (Cons c cs)
  show ?case
  proof (cases "is_linebreak c")
    case True
    with Cons.prems have c: "c = newline" by simp
    show ?thesis
    proof (cases "cs = []")
      case True
      with c show ?thesis by (simp add: newline_linebreak)
    next
      case False
      with Cons.prems have "py_join [newline] (split_lines [] cs) = rev [] @ butlast cs"
        by (intro Cons.IH) auto
      moreover from False have "split_lines [] cs \<noteq> []" by (rule split_lines_not_Nil)
      ultimately show ?thesis using c False
        by (cases "split_lines [] cs") (simp_all add: newline_linebreak)
    qed
  next
    case False
    with Cons.prems newline_linebreak(1) have ne: "cs \<noteq> []" by (auto split: if_splits)
    with Cons.prems have "py_join [newline] (split_lines (c # cur) cs) = rev (c # cur) @ butlast cs"
      by (intro Cons.IH) auto
    with False ne show ?thesis by simp
  qed
qed


section \<open>Association lists and the tree\<close>

lemma set_update_subset: "set (AList.update k v al) \<subseteq> insert (k, v) (set al)"
  by (induction al) auto

lemma snd_set_update:
  "x \<in> snd ` set (AList.update k v al) \<Longrightarrow> x = v \<or> x \<in> snd ` set al"
  using set_update_subset [of k v al] by force

lemma map_of_snd_set: "map_of al k = Some v \<Longrightarrow> v \<in> snd ` set al"
  by (force dest: map_of_SomeD)

lemma split_sep_not_Nil: "split_sep sep s \<noteq> []"
  by (induction s) (auto split: list.splits)

text \<open>After an assignment through a path, the path leads to the node with the new entry.\<close>

lemma traverse_assign_parts:
  "traverse_parts node parts = Some target \<Longrightarrow>
   traverse_parts (assign_parts node parts k v) parts = Some (AList.update k v target)"
proof (induction parts arbitrary: node)
  case Nil
  then show ?case by simp
next
  case (Cons part parts)
  show ?case
  proof (cases "part = []")
    case True
    with Cons show ?thesis by simp
  next
    case False
    with Cons.prems obtain d where d: "map_of node part = Some (Dict d)"
      and t: "traverse_parts d parts = Some target"
      by (auto split: option.splits pyval.splits)
    from Cons.IH [OF t] d False show ?thesis
      by (simp add: update_conv')
  qed
qed

subsection \<open>Keys of the root after loading\<close>

text \<open>
  The loader splits the name of a member on the slash, and the keys it stores in the root
  are parts of such names: no key of the root of a loaded tree holds a slash. A path that
  starts with a slash has a first part, for \<open>traverse_path\<close>, that starts with a slash.
\<close>

lemma split_sep_no_sep: "p \<in> set (split_sep sep s) \<Longrightarrow> sep \<notin> set p"
proof (induction s arbitrary: p)
  case Nil
  then show ?case by simp
next
  case (Cons c cs)
  show ?case
  proof (cases "c = sep")
    case True
    with Cons show ?thesis by auto
  next
    case False
    obtain w ws where w: "split_sep sep cs = w # ws"
      using split_sep_not_Nil [of sep cs] by (cases "split_sep sep cs") auto
    with Cons.prems False have "p = c # w \<or> p \<in> set ws" by simp
    moreover have "sep \<notin> set w" using Cons.IH [of w] w by simp
    moreover have "p \<in> set ws \<Longrightarrow> sep \<notin> set p" using Cons.IH [of p] w by simp
    ultimately show ?thesis using False by auto
  qed
qed

lemma store_member_root_keys:
  assumes "store_member (Dict d) parts leaf kind = Inr node'"
    and "map_of d k = None" and "k \<notin> set parts" and "k \<noteq> leaf"
  shows "\<exists>d'. node' = Dict d' \<and> map_of d' k = None"
proof (cases parts)
  case Nil
  with assms show ?thesis
    by (auto simp: update_conv' split: member_kind.splits option.splits)
next
  case (Cons part rest)
  with assms show ?thesis
    by (auto simp: update_conv' split: sum.splits)
qed

lemma load_member_root_keys:
  assumes "load_member (Dict d) m = Inr node'" and "map_of d k = None" and "slash \<in> set k"
  shows "\<exists>d'. node' = Dict d' \<and> map_of d' k = None"
proof -
  let ?parts = "split_sep slash (fst m)"
  have ne: "?parts \<noteq> []" by (rule split_sep_not_Nil)
  have "k \<notin> set ?parts" using split_sep_no_sep [of k slash "fst m"] assms(3) by blast
  moreover have "last ?parts \<in> set ?parts" using ne by simp
  moreover have "set (butlast ?parts) \<subseteq> set ?parts" by (auto dest: in_set_butlastD)
  ultimately have k: "k \<notin> set (butlast ?parts)" "k \<noteq> last ?parts" by auto
  from assms(1) have "store_member (Dict d) (butlast ?parts) (last ?parts) (snd m) = Inr node'"
    by (simp add: load_member_def Let_def)
  from store_member_root_keys [OF this assms(2) k] show ?thesis .
qed

lemma load_members_root_keys:
  "load_members (Dict d) ms = Inr tree \<Longrightarrow> map_of d k = None \<Longrightarrow> slash \<in> set k \<Longrightarrow>
   \<exists>d'. tree = Dict d' \<and> map_of d' k = None"
proof (induction ms arbitrary: d)
  case Nil
  then show ?case by auto
next
  case (Cons m ms)
  from Cons.prems(1) obtain root' where m: "load_member (Dict d) m = Inr root'"
    and ms: "load_members root' ms = Inr tree"
    by (auto split: sum.splits)
  from load_member_root_keys [OF m Cons.prems(2,3)] obtain d' where
    "root' = Dict d'" "map_of d' k = None" by blast
  with Cons.IH [of d'] ms Cons.prems(3) show ?case by simp
qed

lemma load_tar_root_keys:
  "load_tar (Some members) = Inr tree \<Longrightarrow> slash \<in> set k \<Longrightarrow>
   \<exists>d. tree = Dict d \<and> map_of d k = None"
  using load_members_root_keys [of "[]" members tree k] by (simp add: load_tar_def)

lemma split_sep_head:
  "c \<noteq> sep \<Longrightarrow> \<exists>w ws. split_sep sep (c # cs) = (c # w) # ws"
  using split_sep_not_Nil [of sep cs] by (cases "split_sep sep cs") auto

lemma path_parts_leading_slash: "\<exists>w ws. path_parts (slash # r) = (slash # w) # ws"
proof -
  let ?P = "\<lambda>c. c = backslash"
  have ne: "slash \<noteq> backslash" by (simp add: slash_def backslash_def)
  have "dropWhile ?P (rev r @ [slash]) \<noteq> []" using ne by (simp add: dropWhile_append)
  moreover have "last (dropWhile ?P (rev r @ [slash])) = slash"
    using ne by (simp add: dropWhile_append)
  ultimately obtain r' where "dropWhile ?P (rev r @ [slash]) = r' @ [slash]"
    by (metis append_butlast_last_id)
  then have "strip_chars ?P (slash # r) = slash # rev r'"
    using ne by (simp add: strip_chars_def)
  then show ?thesis
    unfolding path_parts_def using split_sep_head [of slash backslash "rev r'"] ne by simp
qed

lemma posix_join_root: "\<exists>r. posix_join ''/'' path = slash # r"
  by (cases path) (auto simp: posix_join_def slash_def)

section \<open>Owners after loading\<close>










section \<open>\<open>chown\<close>\<close>

text \<open>
  What \<open>chown\<close> with two arguments does, on either platform. It returns, and there are
  three cases for the path joined to the current path. It does not resolve: the error
  \<open>No such file or directory\<close> is printed and logged, the tree is unchanged. It resolves
  to a node without an \<open>owner\<close> entry (the root, a parent made by \<open>setdefault\<close>): the error
  \<open>Cannot change owner\<close> is logged, the tree is unchanged. It resolves to a node with an
  \<open>owner\<close> entry, file or directory alike: afterwards the path leads to that node with
  \<open>owner\<close> set to the new owner, and a success is logged.
\<close>

lemma chown_cases:
  "returned (chown os now [owner, path] st) \<and>
   (traverse_path (fs st) (os_path_join os (current_path st) path) = None \<longrightarrow>
      fs (state_of (chown os now [owner, path] st)) = fs st \<and>
      log_actions (state_of (chown os now [owner, path] st)) = log_actions st @
        [\<lparr>timestamp = now, command = ''chown'', status = ''error'',
          message = ''No such file or directory''\<rparr>] \<and>
      stdout (state_of (chown os now [owner, path] st)) =
        stdout st @ [''No such file or directory: '' @ path]) \<and>
   (\<forall>node. traverse_path (fs st) (os_path_join os (current_path st) path) = Some node \<and>
           map_of node ''owner'' = None \<longrightarrow>
      fs (state_of (chown os now [owner, path] st)) = fs st \<and>
      log_actions (state_of (chown os now [owner, path] st)) = log_actions st @
        [\<lparr>timestamp = now, command = ''chown'', status = ''error'',
          message = ''Cannot change owner''\<rparr>]) \<and>
   (\<forall>node. traverse_path (fs st) (os_path_join os (current_path st) path) = Some node \<and>
           map_of node ''owner'' \<noteq> None \<longrightarrow>
      traverse_path (fs (state_of (chown os now [owner, path] st)))
          (os_path_join os (current_path st) path) =
        Some (AList.update ''owner'' (Str owner) node) \<and>
      log_actions (state_of (chown os now [owner, path] st)) = log_actions st @
        [\<lparr>timestamp = now, command = ''chown '' @ owner @ '' '' @ path,
          status = ''success'', message = []\<rparr>])"
  by (auto simp: chown_def Let_def log_def print_def traverse_path_def assign_path_def
        traverse_assign_parts split: option.splits)

text \<open>
  The second case at work: in the tree of the one file \<open>a/f.txt\<close>, under \<open>ntpath\<close>, the
  argument of \<open>chown bob \a\<close> resolves to the directory \<open>a\<close>, which \<open>setdefault\<close> made;
  the tree is unchanged and the error \<open>Cannot change owner\<close> is logged.
\<close>

lemma chown_node_without_owner:
  "traverse_path orphan_tree (os_path_join Nt ''/'' [backslash, CHR ''a''])
     = Some [(''f.txt'', file_node ''x'')] \<and>
   fs (state_of (chown Nt ''t1'' [''bob'', [backslash, CHR ''a'']] (session orphan_tree ''/'')))
     = orphan_tree \<and>
   map status (log_actions
      (state_of (chown Nt ''t1'' [''bob'', [backslash, CHR ''a'']] (session orphan_tree ''/''))))
     = [''error''] \<and>
   map message (log_actions
      (state_of (chown Nt ''t1'' [''bob'', [backslash, CHR ''a'']] (session orphan_tree ''/''))))
     = [''Cannot change owner'']"
  by code_simp

text \<open>
  Under \<open>posixpath\<close>, the join of the current path \<open>/\<close> of a new session and any argument
  starts with a slash: on a loaded tree it resolves to nothing, whatever the argument.
\<close>

lemma posix_chown_unresolved:
  assumes "load_tar (Some members) = Inr (Dict tree)"
  shows "traverse_path tree (os_path_join Posix ''/'' path) = None"
proof -
  obtain r where r: "posix_join ''/'' path = slash # r" using posix_join_root by blast
  obtain w ws where p: "path_parts (slash # r) = (slash # w) # ws"
    using path_parts_leading_slash by blast
  have "slash \<in> set (slash # w)" by simp
  from load_tar_root_keys [OF assms this] have "map_of tree (slash # w) = None" by simp
  then show ?thesis by (simp add: traverse_path_def r p)
qed

text \<open>
  C8, at its failing input. The scenario's tree holds the directory \<open>a\<close>, with the owner
  \<open>root\<close>. In a new session, with the current path \<open>/\<close>, the line \<open>chown bob a\<close> joins
  \<open>/\<close> and \<open>a\<close> to \<open>/a\<close> under \<open>posixpath\<close> and under \<open>ntpath\<close> alike, and \<open>traverse_path\<close>,
  which splits on the backslash only, looks \<open>/a\<close> up as one key of the root: the error
  \<open>No such file or directory\<close> is printed and logged and the tree is unchanged, though \<open>a\<close>
  is there. On the same input under \<open>ntpath\<close> the sibling \<open>cd a\<close>, which normalizes the
  join, succeeds; and after it \<open>chown bob f.txt\<close> sets the owner of the file.
\<close>

theorem chown_existing_directory_not_found:
  "load_tar (Some scenario_archive) = Inr (Dict scenario_tree) \<and>
   map_of scenario_tree ''a'' =
     Some (Dict [(''type'', Str ''dir''), (''owner'', Str ''root''),
                 (''f.txt'', file_node scenario_content)]) \<and>
   execute_command Posix ''t1'' ''chown bob a'' (session scenario_tree ''/'') =
     Returned ((session scenario_tree ''/'')
       \<lparr>log_actions := [\<lparr>timestamp = ''t1'', command = ''chown'', status = ''error'',
                         message = ''No such file or directory''\<rparr>],
        stdout := [''No such file or directory: a'']\<rparr>) \<and>
   execute_command Nt ''t1'' ''chown bob a'' (session scenario_tree ''/'') =
     Returned ((session scenario_tree ''/'')
       \<lparr>log_actions := [\<lparr>timestamp = ''t1'', command = ''chown'', status = ''error'',
                         message = ''No such file or directory''\<rparr>],
        stdout := [''No such file or directory: a'']\<rparr>) \<and>
   execute_command Nt ''t1'' ''cd a'' (session scenario_tree ''/'') =
     Returned ((session scenario_tree ''/'')
       \<lparr>current_path := [backslash, CHR ''a''],
        log_actions := [\<lparr>timestamp = ''t1'', command = ''cd a'', status = ''success'',
                         message = []\<rparr>]\<rparr>) \<and>
   fs (state_of (execute_command Nt ''t2'' ''chown bob f.txt''
       (state_of (execute_command Nt ''t1'' ''cd a'' (session scenario_tree ''/''))))) =
     [(''a'', Dict [(''type'', Str ''dir''), (''owner'', Str ''root''),
                    (''f.txt'', Dict [(''type'', Str ''file''),
                                      (''content'', Str scenario_content),
                                      (''owner'', Str ''bob'')])])]"
  by code_simp

section \<open>\<open>uniq\<close>\<close>

lemma assign_parts_twice:
  "assign_parts (assign_parts node parts k v) parts k v' = assign_parts node parts k v'"
proof (induction parts arbitrary: node)
  case Nil
  then show ?case by (simp add: update_last)
next
  case (Cons part parts)
  show ?case
  proof (cases "part = []")
    case True
    with Cons show ?thesis by simp
  next
    case False
    show ?thesis
    proof (cases "\<exists>d. map_of node part = Some (Dict d)")
      case True
      then obtain d where d: "map_of node part = Some (Dict d)" by blast
      with False Cons.IH [of d] show ?thesis
        by (simp add: update_conv' update_last)
    next
      case nd: False
      with False show ?thesis
        by (auto split: option.splits pyval.splits)
    qed
  qed
qed

lemma uniq_on_file:
  assumes "traverse_path (fs st) path = Some node"
    and "map_of node ''type'' = Some (Str ''file'')"
    and "map_of node ''content'' = Some (Str content)"
  shows "uniq now [path] st =
    Returned (log now (''uniq '' @ path) ''success'' []
      (print (uniq_content content)
        (st\<lparr>fs := assign_path (fs st) path ''content'' (Str (uniq_content content))\<rparr>)))"
  using assms by (simp add: uniq_def)

lemma fs_log_print [simp]: "fs (log now c s m st) = fs st" "fs (print t st) = fs st"
  by (simp_all add: log_def print_def)

lemma uniq_on_file_fs:
  assumes "traverse_path (fs st) path = Some node"
    and "map_of node ''type'' = Some (Str ''file'')"
    and "map_of node ''content'' = Some (Str content)"
  shows "returned (uniq now [path] st)"
    and "fs (state_of (uniq now [path] st)) =
         assign_path (fs st) path ''content'' (Str (uniq_content content))"
    and "traverse_path (fs (state_of (uniq now [path] st))) path =
         Some (AList.update ''content'' (Str (uniq_content content)) node)"
  using assms
  by (simp_all add: uniq_on_file [OF assms] traverse_path_def assign_path_def
        traverse_assign_parts)


text \<open>
  C6, as the code has it. \<open>uniq\<close> on a path that leads to a file rewrites the content to
  the lines that \<open>splitlines\<close> finds, each kept at its first occurrence, joined by
  \<open>\n\<close>. A second \<open>uniq\<close> on the same path leaves the tree as the first one left it,
  provided the lines kept by the first do not end with an empty line after another line.
\<close>

theorem uniq_twice:
  assumes "traverse_path (fs st) path = Some node"
    and "map_of node ''type'' = Some (Str ''file'')"
    and "map_of node ''content'' = Some (Str content)"
    and "\<not> (2 \<le> length (unique_lines (splitlines content))
             \<and> last (unique_lines (splitlines content)) = [])"
  shows "returned (uniq now [path] st) \<and>
         returned (uniq now' [path] (state_of (uniq now [path] st))) \<and>
         fs (state_of (uniq now' [path] (state_of (uniq now [path] st)))) =
           fs (state_of (uniq now [path] st)) \<and>
         traverse_path (fs (state_of (uniq now [path] st))) path =
           Some (AList.update ''content'' (Str (uniq_content content)) node)"
proof -
  let ?st1 = "state_of (uniq now [path] st)"
  let ?node1 = "AList.update ''content'' (Str (uniq_content content)) node"
  note one = uniq_on_file_fs [OF assms(1-3), of now]
  have t1: "traverse_path (fs ?st1) path = Some ?node1" by (rule one(3))
  have ty: "map_of ?node1 ''type'' = Some (Str ''file'')"
    using assms(2) by (simp add: update_conv')
  have co: "map_of ?node1 ''content'' = Some (Str (uniq_content content))"
    by (simp add: update_conv')
  note two = uniq_on_file_fs [OF t1 ty co, of now']
  have "fs (state_of (uniq now' [path] ?st1)) =
        assign_path (fs ?st1) path ''content'' (Str (uniq_content (uniq_content content)))"
    by (rule two(2))
  also have "\<dots> = assign_path (fs st) path ''content''
                     (Str (uniq_content (uniq_content content)))"
    by (simp only: one(2) assign_path_def assign_parts_twice)
  also have "\<dots> = fs ?st1"
    by (simp only: uniq_content_idem [OF assms(4)] one(2))
  finally show ?thesis using one(1) two(1) t1 by simp
qed

theorem uniq_twice_witness:
  "fs (state_of (uniq ''t2'' [''a'' @ [backslash] @ ''f.txt'']
         (state_of (uniq ''t1'' [''a'' @ [backslash] @ ''f.txt''] (session scenario_tree ''/'')))))
     = fs (state_of (uniq ''t1'' [''a'' @ [backslash] @ ''f.txt''] (session scenario_tree ''/'')))
   \<and> traverse_path
        (fs (state_of (uniq ''t1'' [''a'' @ [backslash] @ ''f.txt''] (session scenario_tree ''/''))))
        (''a'' @ [backslash] @ ''f.txt'')
     = Some [(''type'', Str ''file''), (''content'', Str [CHR ''x'', newline, CHR ''y'']),
             (''owner'', Str ''root'')]"
proof -
  let ?st = "session scenario_tree ''/''"
  let ?path = "''a'' @ [backslash] @ ''f.txt''"
  let ?node = "[(''type'', Str ''file''), (''content'', Str scenario_content),
                (''owner'', Str ''root'')]"
  have h1: "traverse_path (fs ?st) ?path = Some ?node" by code_simp
  have h2: "map_of ?node ''type'' = Some (Str ''file'')" by simp
  have h3: "map_of ?node ''content'' = Some (Str scenario_content)" by simp
  have h4: "\<not> (2 \<le> length (unique_lines (splitlines scenario_content))
             \<and> last (unique_lines (splitlines scenario_content)) = [])" by code_simp
  have u: "uniq_content scenario_content = [CHR ''x'', newline, CHR ''y'']" by code_simp
  from uniq_twice [OF h1 h2 h3 h4, of "''t1''" "''t2''"] show ?thesis
    by (simp add: u)
qed

text \<open>
  The counterexample to C6 as stated: the file with content \<open>a\n\n\<close> has the lines \<open>a\<close>
  and the empty line; one \<open>uniq\<close> stores \<open>a\n\<close>, a second one stores \<open>a\<close>.
\<close>

theorem uniq_twice_differs:
  "fs (state_of (uniq ''t1'' [''f.txt''] (session [(''f.txt'', file_node blank_tail_content)] ''/'')))
     = [(''f.txt'', file_node [CHR ''a'', newline])] \<and>
   fs (state_of (uniq ''t2'' [''f.txt'']
         (state_of (uniq ''t1'' [''f.txt'']
            (session [(''f.txt'', file_node blank_tail_content)] ''/'')))))
     = [(''f.txt'', file_node [CHR ''a''])]"
  by code_simp


text \<open>
  C10. A successful \<open>uniq\<close> on a file whose content has no duplicate line and ends with a
  newline still changes the stored content: the new content is shorter than the old one,
  so it differs from it; and when \<open>\n\<close> is the only line boundary in the content, the new
  content is the old one without its final newline.
\<close>

theorem uniq_strips_final_newline:
  assumes "traverse_path (fs st) path = Some node"
    and "map_of node ''type'' = Some (Str ''file'')"
    and "map_of node ''content'' = Some (Str content)"
    and "distinct (splitlines content)"
    and "content \<noteq> []" and "last content = newline"
  shows "returned (uniq now [path] st) \<and>
         traverse_path (fs (state_of (uniq now [path] st))) path =
           Some (AList.update ''content'' (Str (uniq_content content)) node) \<and>
         uniq_content content \<noteq> content \<and>
         length (uniq_content content) < length content \<and>
         ((\<forall>ch \<in> set content. is_linebreak ch \<longrightarrow> ch = newline) \<longrightarrow>
            uniq_content content = butlast content)"
proof -
  note one = uniq_on_file_fs [OF assms(1-3), of now]
  have u: "uniq_content content = py_join [newline] (splitlines content)"
    using assms(4) by (simp add: uniq_content_def unique_lines_distinct)
  have br: "is_linebreak (last content)"
    using assms(6) by (simp add: newline_linebreak)
  have shorter: "length (uniq_content content) < length content"
    unfolding u using assms(5) br by (rule py_join_shorter)
  then have differs: "uniq_content content \<noteq> content" by auto
  have only: "uniq_content content = butlast content"
    if "\<forall>ch \<in> set content. is_linebreak ch \<longrightarrow> ch = newline"
    using split_lines_only_newlines [OF assms(5,6) that, of "[]"]
    by (simp add: u splitlines_def)
  from one(1,3) shorter differs only show ?thesis by blast
qed

theorem uniq_strips_final_newline_witness:
  "traverse_path
      (fs (state_of (uniq ''t1'' [''f.txt''] (session [(''f.txt'', file_node tidy_content)] ''/''))))
      ''f.txt''
     = Some [(''type'', Str ''file''), (''content'', Str [CHR ''x'', newline, CHR ''y'']),
             (''owner'', Str ''root'')] \<and>
   uniq_content tidy_content = butlast tidy_content \<and>
   uniq_content tidy_content \<noteq> tidy_content"
proof -
  let ?st = "session [(''f.txt'', file_node tidy_content)] ''/''"
  let ?node = "[(''type'', Str ''file''), (''content'', Str tidy_content),
                (''owner'', Str ''root'')]"
  have h1: "traverse_path (fs ?st) ''f.txt'' = Some ?node" by code_simp
  have h2: "map_of ?node ''type'' = Some (Str ''file'')" by simp
  have h3: "map_of ?node ''content'' = Some (Str tidy_content)" by simp
  have h4: "distinct (splitlines tidy_content)" by code_simp
  have h5: "tidy_content \<noteq> []" by code_simp
  have h6: "last tidy_content = newline" by code_simp
  have h7: "\<forall>ch \<in> set tidy_content. is_linebreak ch \<longrightarrow> ch = newline" by code_simp
  have u: "uniq_content tidy_content = [CHR ''x'', newline, CHR ''y'']" by code_simp
  have n: "AList.update ''content'' (Str (uniq_content tidy_content)) ?node =
      [(''type'', Str ''file''), (''content'', Str [CHR ''x'', newline, CHR ''y'']),
       (''owner'', Str ''root'')]"
    by (simp add: u)
  from uniq_strips_final_newline [OF h1 h2 h3 h4 h5 h6, of "''t1''"] h7
  have "traverse_path (fs (state_of (uniq ''t1'' [''f.txt''] ?st))) ''f.txt'' =
          Some (AList.update ''content'' (Str (uniq_content tidy_content)) ?node) \<and>
        uniq_content tidy_content = butlast tidy_content \<and>
        uniq_content tidy_content \<noteq> tidy_content"
    by blast
  then show ?thesis unfolding n .
qed


section \<open>Files where directories are expected\<close>

text \<open>
  What \<open>cd\<close> with one argument does, on either platform: it returns; when the normalized
  join of the current path and the argument does not resolve, the current path and the
  tree stay and the error is logged; when it resolves, to whatever node, the current path
  becomes the normalized join.
\<close>

lemma cd_outcomes:
  "returned (cd os now [path] st) \<and>
   fs (state_of (cd os now [path] st)) = fs st \<and>
   (traverse_path (fs st) (os_path_normpath os (os_path_join os (current_path st) path)) = None
      \<longrightarrow> current_path (state_of (cd os now [path] st)) = current_path st \<and>
          log_actions (state_of (cd os now [path] st)) = log_actions st @
            [\<lparr>timestamp = now, command = ''cd'', status = ''error'',
              message = ''No such directory''\<rparr>]) \<and>
   (traverse_path (fs st) (os_path_normpath os (os_path_join os (current_path st) path)) \<noteq> None
      \<longrightarrow> current_path (state_of (cd os now [path] st)) =
            os_path_normpath os (os_path_join os (current_path st) path) \<and>
          log_actions (state_of (cd os now [path] st)) = log_actions st @
            [\<lparr>timestamp = now, command = ''cd '' @ path, status = ''success'',
              message = []\<rparr>])"
  by (simp add: cd_def Let_def log_def print_def)

text \<open>
  C2, at its failing input. In the tree of the one file \<open>f.txt\<close>, under \<open>ntpath\<close>, the
  normalized join of \<open>/\<close> and \<open>f.txt\<close> resolves to the file node, and \<open>cd f.txt\<close> succeeds:
  the current path becomes \<open>\f.txt\<close>, a success is logged, and \<open>ls\<close> then prints the
  keys of the file node.
\<close>

theorem cd_into_file:
  "load_tar (Some [(''f.txt'', IsFile (Some ''x''))]) = Inr (Dict lone_file_tree) \<and>
   traverse_path lone_file_tree (os_path_normpath Nt (os_path_join Nt ''/'' ''f.txt'')) =
     Some [(''type'', Str ''file''), (''content'', Str ''x''), (''owner'', Str ''root'')] \<and>
   current_path (state_of (cd Nt ''t1'' [''f.txt''] (session lone_file_tree ''/''))) =
     backslash # ''f.txt'' \<and>
   log_actions (state_of (cd Nt ''t1'' [''f.txt''] (session lone_file_tree ''/''))) =
     [\<lparr>timestamp = ''t1'', command = ''cd f.txt'', status = ''success'', message = []\<rparr>] \<and>
   stdout (state_of (ls ''t2'' (state_of (cd Nt ''t1'' [''f.txt''] (session lone_file_tree ''/''))))) =
     [''type'', ''content'', ''owner'']"
  by code_simp

text \<open>
  C4, at its failing input. After loading the file \<open>f.txt\<close> and then the file \<open>f.txt/x\<close>,
  the node of \<open>f.txt\<close> is a file that holds the node of \<open>x\<close>, and \<open>traverse_path\<close> of
  \<open>f.txt\x\<close> goes through the file and returns the node of \<open>x\<close>.
\<close>

theorem traverse_through_file:
  "load_tar (Some nested_archive) = Inr (Dict nested_tree) \<and>
   map_of nested_tree ''f.txt'' =
     Some (Dict [(''type'', Str ''file''), (''content'', Str ''x''),
                 (''owner'', Str ''root''), (''x'', file_node ''y'')]) \<and>
   traverse_path nested_tree (''f.txt'' @ [backslash] @ ''x'') =
     Some [(''type'', Str ''file''), (''content'', Str ''y''), (''owner'', Str ''root'')]"
  by code_simp

text \<open>
  C5, at its failing input: the scenario itself, under \<open>ntpath\<close> and under \<open>posixpath\<close>.
  Under \<open>ntpath\<close>, \<open>cd a\<close> succeeds and the current path becomes \<open>\a\<close>; under \<open>posixpath\<close>
  it fails and the current path stays \<open>/\<close>. Under both, \<open>uniq f.txt\<close> looks \<open>f.txt\<close> up
  at the root, logs the error \<open>No such file\<close>, and leaves the tree as it was loaded.
\<close>

theorem scenario_uniq_no_such_file:
  "load_tar (Some scenario_archive) = Inr (Dict scenario_tree) \<and>
   current_path (state_of (execute_command Nt ''t1'' ''cd a'' (session scenario_tree ''/''))) =
     [backslash, CHR ''a''] \<and>
   log_actions (state_of (execute_command Nt ''t2'' ''uniq f.txt''
       (state_of (execute_command Nt ''t1'' ''cd a'' (session scenario_tree ''/''))))) =
     [\<lparr>timestamp = ''t1'', command = ''cd a'', status = ''success'', message = []\<rparr>,
      \<lparr>timestamp = ''t2'', command = ''uniq'', status = ''error'', message = ''No such file''\<rparr>] \<and>
   fs (state_of (execute_command Nt ''t2'' ''uniq f.txt''
       (state_of (execute_command Nt ''t1'' ''cd a'' (session scenario_tree ''/''))))) =
     scenario_tree \<and>
   current_path (state_of (execute_command Posix ''t1'' ''cd a'' (session scenario_tree ''/''))) =
     ''/'' \<and>
   log_actions (state_of (execute_command Posix ''t2'' ''uniq f.txt''
       (state_of (execute_command Posix ''t1'' ''cd a'' (session scenario_tree ''/''))))) =
     [\<lparr>timestamp = ''t1'', command = ''cd'', status = ''error'', message = ''No such directory''\<rparr>,
      \<lparr>timestamp = ''t2'', command = ''uniq'', status = ''error'', message = ''No such file''\<rparr>] \<and>
   fs (state_of (execute_command Posix ''t2'' ''uniq f.txt''
       (state_of (execute_command Posix ''t1'' ''cd a'' (session scenario_tree ''/''))))) =
     scenario_tree"
  by code_simp

text \<open>
  C7, at its failing input. Under \<open>ntpath\<close>, \<open>cd a\<close> in the scenario's tree makes the current
  path \<open>\a\<close>, which resolves to the directory \<open>a\<close>; \<open>ls\<close> there prints \<open>type\<close> and \<open>owner\<close>,
  the attributes of \<open>a\<close> itself, before its one child \<open>f.txt\<close>.
\<close>

theorem ls_prints_attributes:
  "current_path (state_of (cd Nt ''t1'' [''a''] (session scenario_tree ''/''))) =
     [backslash, CHR ''a''] \<and>
   traverse_path scenario_tree [backslash, CHR ''a''] =
     Some [(''type'', Str ''dir''), (''owner'', Str ''root''),
           (''f.txt'', file_node scenario_content)] \<and>
   stdout (state_of (ls ''t2'' (session scenario_tree [backslash, CHR ''a'']))) =
     [''type'', ''owner'', ''f.txt''] \<and>
   log_actions (state_of (ls ''t2'' (session scenario_tree [backslash, CHR ''a'']))) =
     [\<lparr>timestamp = ''t2'', command = ''ls'', status = ''success'', message = []\<rparr>]"
  by code_simp


section \<open>One log entry for each command\<close>

lemma files_have_text_update:
  assumes "files_have_text (Dict d)" and "k \<noteq> ''type''"
  shows "files_have_text (Dict (AList.update k (Str s) d))"
proof -
  have ch: "\<forall>v \<in> snd ` set (AList.update k (Str s) d). files_have_text v"
  proof
    fix v assume "v \<in> snd ` set (AList.update k (Str s) d)"
    then have "v = Str s \<or> v \<in> snd ` set d" by (rule snd_set_update)
    with assms(1) show "files_have_text v" by auto
  qed
  have ty: "map_of (AList.update k (Str s) d) ''type'' = map_of d ''type''"
    using assms(2) by (simp add: update_conv')
  show ?thesis
  proof (cases "k = ''content''")
    case True
    with ch show ?thesis by (simp add: update_conv')
  next
    case False
    then have "map_of (AList.update k (Str s) d) ''content'' = map_of d ''content''"
      by (simp add: update_conv')
    with ch ty assms(1) show ?thesis by (simp split: option.splits pyval.splits)
  qed
qed

lemma files_have_text_child:
  assumes "files_have_text (Dict d)" and "files_have_text (Dict c')"
    and "map_of d k = Some (Dict c)"
  shows "files_have_text (Dict (AList.update k (Dict c') d))"
proof -
  have ch: "\<forall>x \<in> snd ` set (AList.update k (Dict c') d). files_have_text x"
  proof
    fix x assume "x \<in> snd ` set (AList.update k (Dict c') d)"
    then have "x = Dict c' \<or> x \<in> snd ` set d" by (rule snd_set_update)
    with assms(1,2) show "files_have_text x" by auto
  qed
  have m: "map_of (AList.update k (Dict c') d) = (map_of d)(k \<mapsto> Dict c')"
    by (rule update_conv')
  show ?thesis
  proof (cases "k = ''content''")
    case True
    with assms(1,3) have nf: "map_of d ''type'' \<noteq> Some (Str ''file'')" by simp
    with True ch m show ?thesis by simp
  next
    case False
    show ?thesis
    proof (cases "k = ''type''")
      case True
      with False ch m show ?thesis by (simp split: option.splits pyval.splits)
    next
      case nt: False
      with False ch m assms(1) show ?thesis by (simp split: option.splits pyval.splits)
    qed
  qed
qed

lemma files_have_text_lookup:
  "files_have_text (Dict d) \<Longrightarrow> map_of d k = Some v \<Longrightarrow> files_have_text v"
proof -
  assume a: "files_have_text (Dict d)" and m: "map_of d k = Some v"
  from m have "v \<in> snd ` set d" by (rule map_of_snd_set)
  with a show ?thesis by auto
qed

lemma files_have_text_assign:
  "files_have_text (Dict node) \<Longrightarrow> k \<noteq> ''type'' \<Longrightarrow>
   files_have_text (Dict (assign_parts node parts k (Str s)))"
proof (induction parts arbitrary: node)
  case Nil
  then show ?case by (simp add: files_have_text_update del: files_have_text.simps)
next
  case (Cons part parts)
  show ?case
  proof (cases "part = []")
    case True
    with Cons show ?thesis by (simp del: files_have_text.simps)
  next
    case False
    show ?thesis
    proof (cases "\<exists>d. map_of node part = Some (Dict d)")
      case True
      then obtain d where d: "map_of node part = Some (Dict d)" by blast
      with Cons.prems(1) have "files_have_text (Dict d)"
        by (rule files_have_text_lookup)
      with Cons.IH Cons.prems(2) have "files_have_text (Dict (assign_parts d parts k (Str s)))"
        by blast
      with Cons.prems(1) d have
        "files_have_text (Dict (AList.update part (Dict (assign_parts d parts k (Str s))) node))"
        by (intro files_have_text_child)
      with False d show ?thesis by (simp del: files_have_text.simps)
    next
      case nd: False
      with False Cons.prems(1) show ?thesis
        by (auto simp del: files_have_text.simps split: option.splits pyval.splits)
    qed
  qed
qed

lemma files_have_text_traverse:
  "files_have_text (Dict node) \<Longrightarrow> traverse_parts node parts = Some target \<Longrightarrow>
   files_have_text (Dict target)"
proof (induction parts arbitrary: node)
  case Nil
  then show ?case by (simp del: files_have_text.simps)
next
  case (Cons part parts)
  show ?case
  proof (cases "part = []")
    case True
    with Cons show ?thesis by (simp del: files_have_text.simps)
  next
    case False
    with Cons.prems(2) obtain d where d: "map_of node part = Some (Dict d)"
      and t: "traverse_parts d parts = Some target"
      by (auto split: option.splits pyval.splits)
    from Cons.prems(1) d have "files_have_text (Dict d)" by (rule files_have_text_lookup)
    from Cons.IH [OF this t] show ?thesis .
  qed
qed


lemma appends_one_log:
  "files_have_text (Dict (fs st')) \<Longrightarrow> log_actions st' = log_actions st \<Longrightarrow>
   appends_one st (Returned (log now c s m st'))"
  by (simp add: appends_one_def log_def del: files_have_text.simps)

lemma ls_appends_one: "files_have_text (Dict (fs st)) \<Longrightarrow> appends_one st (ls now st)"
  by (auto simp: ls_def print_def intro!: appends_one_log simp del: files_have_text.simps
      split: option.splits)

lemma cd_appends_one: "files_have_text (Dict (fs st)) \<Longrightarrow> appends_one st (cd os now args st)"
  by (auto simp: cd_def Let_def print_def intro!: appends_one_log simp del: files_have_text.simps)

lemma who_appends_one: "files_have_text (Dict (fs st)) \<Longrightarrow> appends_one st (who now st)"
  by (auto simp: who_def print_def intro!: appends_one_log simp del: files_have_text.simps)

lemma chown_appends_one:
  "files_have_text (Dict (fs st)) \<Longrightarrow> appends_one st (chown os now args st)"
  by (auto simp: chown_def Let_def print_def assign_path_def
      intro!: appends_one_log files_have_text_assign
      simp del: files_have_text.simps split: option.splits)

lemma uniq_appends_one:
  assumes "files_have_text (Dict (fs st))"
  shows "appends_one st (uniq now args st)"
proof (cases "length args \<noteq> 1")
  case True
  with assms show ?thesis
    by (auto simp: uniq_def print_def intro!: appends_one_log simp del: files_have_text.simps)
next
  case one: False
  show ?thesis
  proof (cases "traverse_path (fs st) (hd args)")
    case None
    with one assms show ?thesis
      by (auto simp: uniq_def print_def intro!: appends_one_log simp del: files_have_text.simps)
  next
    case (Some node)
    with assms have n: "files_have_text (Dict node)"
      by (auto simp: traverse_path_def intro: files_have_text_traverse
          simp del: files_have_text.simps)
    show ?thesis
    proof (cases "map_of node ''type'' = Some (Str ''file'')")
      case False
      with one Some assms show ?thesis
        by (auto simp: uniq_def print_def intro!: appends_one_log
            simp del: files_have_text.simps)
    next
      case True
      with n obtain content where "map_of node ''content'' = Some (Str content)"
        by (auto split: option.splits pyval.splits)
      with one Some True assms show ?thesis
        by (auto simp: uniq_def Let_def print_def assign_path_def
            intro!: appends_one_log files_have_text_assign simp del: files_have_text.simps)
    qed
  qed
qed


lemma execute_command_appends_one:
  assumes "files_have_text (Dict (fs st))"
    and "verb_of line \<noteq> None" and "verb_of line \<noteq> Some ''exit''"
  shows "appends_one st (execute_command os now line st)"
proof -
  from assms(2) obtain cmd args where
    p: "py_split (strip_chars is_space line) = cmd # args"
    by (auto simp: verb_of_def split: list.splits)
  with assms(3) have ne: "cmd \<noteq> ''exit''" by (simp add: verb_of_def)
  have other: "appends_one st
      (Returned (log now line ''error'' ''Command not found''
                   (print (''Command not found: '' @ cmd) st)))"
    using assms(1) by (intro appends_one_log) (simp_all add: print_def del: files_have_text.simps)
  from p ne other assms(1) show ?thesis
    by (simp add: execute_command_def Let_def ls_appends_one cd_appends_one
        chown_appends_one who_appends_one uniq_appends_one del: files_have_text.simps)
qed

lemma execute_command_blank:
  "verb_of line = None \<Longrightarrow> execute_command os now line st = Returned st"
  by (simp add: execute_command_def verb_of_def Let_def split: list.splits)

lemma execute_command_exit:
  assumes "verb_of line = Some ''exit''"
  shows "\<not> returned (execute_command os now line st) \<and>
         log_actions (state_of (execute_command os now line st)) = log_actions st \<and>
         fs (state_of (execute_command os now line st)) = fs st"
proof -
  from assms have "\<exists>args. py_split (strip_chars is_space line) = ''exit'' # args"
    by (auto simp: verb_of_def split: list.splits)
  then show ?thesis
    by (auto simp: execute_command_def Let_def exit_shell_def save_log_def print_def
        split: option.splits)
qed


lemma run_lines_count:
  "files_have_text (Dict (fs st)) \<Longrightarrow>
   \<forall>(now, line) \<in> set typed. verb_of line \<noteq> Some ''exit'' \<Longrightarrow>
   returned (run_lines os typed st) \<and>
   length (log_actions (state_of (run_lines os typed st))) =
     length (log_actions st) + length (filter (\<lambda>(now, line). verb_of line \<noteq> None) typed) \<and>
   files_have_text (Dict (fs (state_of (run_lines os typed st))))"
proof (induction typed arbitrary: st)
  case Nil
  then show ?case by (simp del: files_have_text.simps)
next
  case (Cons a typed)
  obtain now line where a: "a = (now, line)" by (cases a)
  let ?st0 = "print (current_path st @ ''> '') st"
  have st0: "fs ?st0 = fs st" "log_actions ?st0 = log_actions st"
    by (simp_all add: print_def)
  from Cons.prems(2) a have ne: "verb_of line \<noteq> Some ''exit''" by simp
  from Cons.prems(2) have rest: "\<forall>(now, line) \<in> set typed. verb_of line \<noteq> Some ''exit''"
    by simp
  show ?case
  proof (cases "verb_of line = None")
    case True
    then have "execute_command os now line ?st0 = Returned ?st0"
      by (rule execute_command_blank)
    moreover from Cons.prems(1) have "files_have_text (Dict (fs ?st0))"
      by (simp only: st0)
    ultimately show ?thesis
      using Cons.IH [OF _ rest, of ?st0] a True st0
      by (simp del: files_have_text.simps)
  next
    case False
    from Cons.prems(1) have "files_have_text (Dict (fs ?st0))" by (simp only: st0)
    from execute_command_appends_one [OF this False ne, of os now]
    obtain st' where r: "execute_command os now line ?st0 = Returned st'"
      and l: "length (log_actions st') = Suc (length (log_actions st))"
      and f: "files_have_text (Dict (fs st'))"
      by (auto simp: appends_one_def st0 simp del: files_have_text.simps split: outcome.splits)
    from Cons.IH [OF f rest] a r l False show ?thesis
      by (simp del: files_have_text.simps)
  qed
qed


text \<open>
  C1, as the code has it. A line without a word (empty, or whitespace only) returns with the
  state unchanged. \<open>exit\<close> appends no entry: it saves the log and raises \<open>SystemExit\<close>. Every
  other line, on a tree whose files all have text as content, returns with exactly one
  entry appended to the log and the earlier entries kept. So the loop of \<open>run\<close> over lines
  without \<open>exit\<close> returns with as many new entries as there are lines with a word.
\<close>

theorem dispatch_log_entries:
  "(verb_of line = None \<longrightarrow> execute_command os now line st = Returned st) \<and>
   (verb_of line = Some ''exit'' \<longrightarrow>
      \<not> returned (execute_command os now line st) \<and>
      log_actions (state_of (execute_command os now line st)) = log_actions st) \<and>
   (files_have_text (Dict (fs st)) \<and> verb_of line \<noteq> None \<and> verb_of line \<noteq> Some ''exit'' \<longrightarrow>
      returned (execute_command os now line st) \<and>
      length (log_actions (state_of (execute_command os now line st))) =
        Suc (length (log_actions st)) \<and>
      butlast (log_actions (state_of (execute_command os now line st))) = log_actions st) \<and>
   (files_have_text (Dict (fs st)) \<and>
    (\<forall>(now, line) \<in> set typed. verb_of line \<noteq> Some ''exit'') \<longrightarrow>
      returned (run_lines os typed st) \<and>
      length (log_actions (state_of (run_lines os typed st))) =
        length (log_actions st) +
        length (filter (\<lambda>(now, line). verb_of line \<noteq> None) typed))"
proof -
  have one: "returned (execute_command os now line st) \<and>
      length (log_actions (state_of (execute_command os now line st))) =
        Suc (length (log_actions st)) \<and>
      butlast (log_actions (state_of (execute_command os now line st))) = log_actions st"
    if "files_have_text (Dict (fs st))" "verb_of line \<noteq> None" "verb_of line \<noteq> Some ''exit''"
    using execute_command_appends_one [OF that, of os now]
    by (auto simp: appends_one_def simp del: files_have_text.simps split: outcome.splits)
  show ?thesis
    using execute_command_blank [of line os now st] execute_command_exit [of line os now st]
      one run_lines_count [of st typed os]
    by blast
qed

theorem dispatch_log_entries_witness:
  "execute_command Posix ''t0'' [] (session scenario_tree ''/'') =
     Returned (session scenario_tree ''/'') \<and>
   log_actions (state_of (execute_command Posix ''t0'' ''exit'' (session scenario_tree ''/'')))
     = [] \<and>
   length (log_actions (state_of (execute_command Nt ''t0'' ''cd a'' (session scenario_tree ''/''))))
     = 1 \<and>
   length (log_actions (state_of (run_lines Nt typed_lines (session scenario_tree ''/'')))) = 3"
proof -
  let ?st = "session scenario_tree ''/''"
  have inv: "files_have_text (Dict (fs ?st))" by code_simp
  have b: "verb_of [] = None" by code_simp
  have e: "verb_of ''exit'' = Some ''exit''" by code_simp
  have c: "verb_of ''cd a'' \<noteq> None \<and> verb_of ''cd a'' \<noteq> Some ''exit''" by code_simp
  have t: "\<forall>(now, line) \<in> set typed_lines. verb_of line \<noteq> Some ''exit''" by code_simp
  have n: "length (filter (\<lambda>(now, line). verb_of line \<noteq> None) typed_lines) = 3"
    by code_simp
  have l: "log_actions ?st = []" by (simp add: session_def)
  from dispatch_log_entries [of "[]" Posix "''t0''" ?st] b
  have 1: "execute_command Posix ''t0'' [] ?st = Returned ?st" by blast
  from dispatch_log_entries [of "''exit''" Posix "''t0''" ?st] e
  have 2: "log_actions (state_of (execute_command Posix ''t0'' ''exit'' ?st)) = log_actions ?st"
    by blast
  from dispatch_log_entries [of "''cd a''" Nt "''t0''" ?st] inv c
  have 3: "length (log_actions (state_of (execute_command Nt ''t0'' ''cd a'' ?st))) =
           Suc (length (log_actions ?st))" by blast
  from dispatch_log_entries [of _ Nt _ ?st typed_lines] inv t
  have 4: "length (log_actions (state_of (run_lines Nt typed_lines ?st))) =
      length (log_actions ?st) +
      length (filter (\<lambda>(now, line). verb_of line \<noteq> None) typed_lines)" by blast
  from 1 2 3 4 show ?thesis unfolding l n by simp
qed

text \<open>
  The counterexample to C1 as stated: \<open>exit\<close> is a non-empty line, yet it appends no entry,
  and control does not return; and the line of one space is non-empty and appends nothing.
\<close>

theorem exit_and_blank_append_nothing:
  "execute_command Posix ''t1'' ''exit'' (session scenario_tree ''/'') =
     Raised SystemExit
       ((session scenario_tree ''/'')
          \<lparr>stdout := [''No actions to log.'', ''Session saved. Exiting...'']\<rparr>) \<and>
   log_actions (state_of (execute_command Posix ''t1'' ''exit'' (session scenario_tree ''/'')))
     = [] \<and>
   execute_command Posix ''t1'' '' '' (session scenario_tree ''/'') =
     Returned (session scenario_tree ''/'')"
  by code_simp


section \<open>Path resolution of the empty path and of the separator\<close>

text \<open>
  On every tree, \<open>traverse_path\<close> of the empty path returns the root dict, and so does
  \<open>traverse_path\<close> of the path made of the one character that \<open>traverse_path\<close> strips and
  splits on, the backslash.
\<close>

lemma traverse_path_empty_and_backslash:
  "traverse_path tree [] = Some tree \<and> traverse_path tree [backslash] = Some tree"
  by (simp add: traverse_path_def path_parts_def strip_chars_def)

lemma path_parts_slash: "path_parts ''/'' = [''/'']"
  by code_simp

text \<open>
  C9, at its failing input: the path \<open>/\<close>, made of the separator that the loader splits
  the names of the members on, and the current path that \<open>__init__\<close> sets. In every
  session that \<open>__init__\<close> builds from an archive, the empty path and the backslash resolve
  to the root, and the path \<open>/\<close> resolves to nothing: \<open>traverse_path\<close> looks it up as a key
  of the root, and no key of a loaded root holds a slash. So \<open>ls\<close>, as the first command of
  the session, prints and logs \<open>Not a directory\<close>.
\<close>

theorem traverse_path_slash_unresolved:
  "init tarp logp typed (Some members) werr = Inr st \<Longrightarrow>
   current_path st = ''/'' \<and>
   traverse_path (fs st) [] = Some (fs st) \<and>
   traverse_path (fs st) [backslash] = Some (fs st) \<and>
   traverse_path (fs st) ''/'' = None \<and>
   ls now st = Returned (st\<lparr>stdout := stdout st @ [''Not a directory''],
                           log_actions := [\<lparr>timestamp = now, command = ''ls'',
                             status = ''error'', message = ''Not a directory''\<rparr>]\<rparr>)"
proof -
  assume i: "init tarp logp typed (Some members) werr = Inr st"
  then obtain d where l: "load_tar (Some members) = Inr (Dict d)"
    and st: "st = \<lparr>tar_path = tarp, log_path = logp, fs = d, current_path = ''/'',
                  log_actions = [], current_user = fst (request_login typed),
                  stdout = snd (request_login typed),
                  log_file = None, write_error = werr\<rparr>"
    by (auto simp: init_def Let_def split: prod.splits sum.splits pyval.splits)
  have "slash \<in> set ''/''" by (simp add: slash_def)
  from load_tar_root_keys [OF l this] have k: "map_of d ''/'' = None" by simp
  have t: "traverse_path d ''/'' = None"
    unfolding traverse_path_def path_parts_slash using k by simp
  show ?thesis
    unfolding st using t traverse_path_empty_and_backslash [of d]
    by (simp add: ls_def log_def print_def)
qed

theorem traverse_path_slash_unresolved_witness:
  "init ''fs.tar'' ''log.xml'' ''user'' (Some scenario_archive) None =
     Inr ((session scenario_tree ''/'')\<lparr>stdout := [''Enter your username: '']\<rparr>) \<and>
   traverse_path scenario_tree [backslash] = Some scenario_tree \<and>
   traverse_path scenario_tree ''/'' = None \<and>
   log_actions (state_of (ls ''t1''
       ((session scenario_tree ''/'')\<lparr>stdout := [''Enter your username: '']\<rparr>))) =
     [\<lparr>timestamp = ''t1'', command = ''ls'', status = ''error'',
       message = ''Not a directory''\<rparr>]"
proof -
  let ?st = "(session scenario_tree ''/'')\<lparr>stdout := [''Enter your username: '']\<rparr>"
  have i: "init ''fs.tar'' ''log.xml'' ''user'' (Some scenario_archive) None = Inr ?st"
    by code_simp
  have f: "fs ?st = scenario_tree" by (simp add: session_def)
  from traverse_path_slash_unresolved [OF i, of "''t1''"] i show ?thesis
    unfolding f by simp
qed

end
